theory Spec2Isabelle
  imports Main "HOL-Library.Word"
begin

section \<open>The response cache of \<open>routes.py\<close>\<close>

text \<open>
  The module keeps one process-wide dictionary \<open>cache\<close> from key strings to pairs
  \<open>(timestamp, value)\<close>, a decorator \<open>with_cache\<close> whose inner \<open>wrapper\<close> consults and
  fills the dictionary, and an endpoint \<open>clear_cache\<close> that replaces it by an empty one.

  Times are \<open>datetime\<close> values and windows are \<open>timedelta\<close> values; both have microsecond
  resolution, so both are integers here (microseconds), and \<open>datetime.now() - timestamp <
  expiry\<close> is the comparison of integers. The clock is the wall clock: nothing in the model
  makes it monotone.
\<close>

subsection \<open>Strings and call arguments\<close>

text \<open>
  A Python string is a sequence of code points, and the interpreter keeps a code point in
  32 bits. \<open>pystr_of\<close> reads a string written in this file, character by character, as
  such a sequence.

  The wrapped endpoints take integers (\<open>year\<close>) and strings (\<open>season_type\<close>, \<open>team_id\<close>,
  \<open>player_id\<close>, \<open>game_id\<close>). \<open>*args\<close> is a tuple of values; \<open>**kwargs\<close> is a dictionary
  from parameter names to values, which keeps the order in which the names were given.
\<close>

type_synonym codepoint = "32 word"
type_synonym pystr = "codepoint list"

fun pystr_of :: "string \<Rightarrow> pystr" where
  "pystr_of [] = []"
| "pystr_of (c # cs) = of_char c # pystr_of cs"

datatype pyval = PyInt int | PyStr pystr

type_synonym pyargs = "pyval list"
type_synonym pykwargs = "(pystr \<times> pyval) list"

subsection \<open>State\<close>

text \<open>
  \<open>cache\<close> is the module's dictionary. \<open>clock\<close> is what \<open>datetime.now()\<close> returns when
  it is read in this state. \<open>provider\<close> stands for everything the wrapped functions reach
  through \<open>nfl_service\<close>.
\<close>

record ('v, 'x) state =
  cache :: "pystr \<rightharpoonup> int \<times> 'v"
  clock :: int
  provider :: 'x

text \<open>
  A wrapped function \<open>func\<close>: its \<open>__name__\<close> and what awaiting \<open>func(*args, **kwargs)\<close>
  does. The call starts with the clock and the provider as they are, raises (\<open>Inl\<close>) or
  returns a value (\<open>Inr\<close>), and leaves the clock and the provider as they are when it
  completes. It has no access to \<open>cache\<close>.
\<close>

record ('e, 'v, 'x) func =
  func_name :: pystr
  func_call :: "pyargs \<Rightarrow> pykwargs \<Rightarrow> int \<times> 'x \<Rightarrow> ('e + 'v) \<times> int \<times> 'x"

definition CACHE_EXPIRY :: int where
  "CACHE_EXPIRY = 15 * 60 * 1000000"

subsection \<open>The string form of the arguments\<close>

text \<open>
  The key is built with \<open>str\<close> of the tuple \<open>args\<close> and of the dictionary \<open>kwargs\<close>. Both
  print their elements with \<open>repr\<close>.

  \<open>repr\<close> of an integer is its decimal numeral, with a minus sign (code 45) when negative.
  (Recent interpreters refuse to print an integer of more than 4300 digits; the endpoints
  receive years, and the model prints every integer.)
\<close>

definition digit_char :: "nat \<Rightarrow> codepoint" where
  "digit_char n = of_nat (48 + n)"

fun digits :: "nat \<Rightarrow> pystr" where
  "digits n = (if n < 10 then [digit_char n] else digits (n div 10) @ [digit_char (n mod 10)])"

declare digits.simps [simp del]

definition repr_int :: "int \<Rightarrow> pystr" where
  "repr_int i = (if i < 0 then 0x2D # digits (nat (- i)) else digits (nat i))"

text \<open>
  \<open>repr\<close> of a string. The quote is the apostrophe (code 39), unless the string has an
  apostrophe and no double quote (code 34). The quote and the backslash (code 92) are
  escaped with a backslash; tab, newline and carriage return are \<open>\t\<close>, \<open>\n\<close>, \<open>\r\<close>; the
  other codes under 32 and code 127 are \<open>\xhh\<close>; the other codes under 127 stand for
  themselves. A code of 127 or more stands for itself when it is printable; otherwise it
  is \<open>\xhh\<close> up to 255, \<open>\uhhhh\<close> up to 65535 and \<open>\Uhhhhhhhh\<close> above, with lower-case
  hexadecimal digits.

  Which codes are printable is a table of the interpreter's Unicode database. From 128
  to 255 the codes that are not printable are 128 to 160 and 173. The table above 255 is
  not part of the repository: \<open>unicode_printable\<close> stands for it and nothing is known
  of it here, so what is proved below holds for every such table.
\<close>

definition hex_char :: "nat \<Rightarrow> codepoint" where
  "hex_char n = of_nat (if n < 10 then 48 + n else 87 + n)"

fun hex_digits :: "nat \<Rightarrow> nat \<Rightarrow> pystr" where
  "hex_digits 0 n = []"
| "hex_digits (Suc k) n = hex_digits k (n div 16) @ [hex_char (n mod 16)]"

definition unicode_printable :: "codepoint \<Rightarrow> bool" where
  "unicode_printable = undefined"

definition printable :: "codepoint \<Rightarrow> bool" where
  "printable c = (if c \<le> 0xFF then 0xA1 \<le> c \<and> c \<noteq> 0xAD else unicode_printable c)"

definition quote_of :: "pystr \<Rightarrow> codepoint" where
  "quote_of s = (if 0x27 \<in> set s \<and> 0x22 \<notin> set s then 0x22 else 0x27)"

definition escape_char :: "codepoint \<Rightarrow> codepoint \<Rightarrow> pystr" where
  "escape_char q c =
     (if c = q \<or> c = 0x5C then [0x5C, c]
      else if c = 0x09 then [0x5C, 0x74]
      else if c = 0x0A then [0x5C, 0x6E]
      else if c = 0x0D then [0x5C, 0x72]
      else if c < 0x20 \<or> c = 0x7F then 0x5C # 0x78 # hex_digits 2 (unat c)
      else if c < 0x7F then [c]
      else if \<not> printable c then
        (if c \<le> 0xFF then 0x5C # 0x78 # hex_digits 2 (unat c)
         else if c \<le> 0xFFFF then 0x5C # 0x75 # hex_digits 4 (unat c)
         else 0x5C # 0x55 # hex_digits 8 (unat c))
      else [c])"

definition repr_str :: "pystr \<Rightarrow> pystr" where
  "repr_str s = (let q = quote_of s in q # concat (map (escape_char q) s) @ [q])"

fun repr :: "pyval \<Rightarrow> pystr" where
  "repr (PyInt i) = repr_int i"
| "repr (PyStr s) = repr_str s"

text \<open>\<open>', '.join(items)\<close>, as the tuple and the dictionary print their elements.\<close>

fun join_items :: "pystr list \<Rightarrow> pystr" where
  "join_items [] = []"
| "join_items [x] = x"
| "join_items (x # y # ys) = x @ pystr_of '', '' @ join_items (y # ys)"

text \<open>
  \<open>str(args)\<close>: \<open>()\<close> for the empty tuple, \<open>(x,)\<close> for a tuple of one element, and
  \<open>(x, y, ...)\<close> otherwise.
\<close>

definition str_args :: "pyargs \<Rightarrow> pystr" where
  "str_args args =
     (case args of
        [a] \<Rightarrow> pystr_of ''('' @ repr a @ pystr_of '',)''
      | _ \<Rightarrow> pystr_of ''('' @ join_items (map repr args) @ pystr_of '')'')"

text \<open>\<open>str(kwargs)\<close>: \<open>{'name': value, ...}\<close> in the order of the dictionary.\<close>

definition repr_item :: "pystr \<times> pyval \<Rightarrow> pystr" where
  "repr_item kv = repr_str (fst kv) @ pystr_of '': '' @ repr (snd kv)"

definition str_kwargs :: "pykwargs \<Rightarrow> pystr" where
  "str_kwargs kwargs = pystr_of ''{'' @ join_items (map repr_item kwargs) @ pystr_of ''}''"

subsection \<open>The wrapper\<close>

text \<open>Line 27: \<open>key = f"{func.__name__}:{str(args)}:{str(kwargs)}"\<close>.\<close>

definition cache_key :: "('e, 'v, 'x) func \<Rightarrow> pyargs \<Rightarrow> pykwargs \<Rightarrow> pystr" where
  "cache_key func args kwargs =
     func_name func @ pystr_of '':'' @ str_args args @ pystr_of '':'' @ str_kwargs kwargs"

text \<open>
  Lines 35 to 40, the path taken when there is no hit: await \<open>func(*args, **kwargs)\<close>; if
  it raises, the exception leaves the wrapper and line 39 is not reached; otherwise store
  the result under the key with the time read then, and return the result.
\<close>

definition call_original ::
  "('e, 'v, 'x) func \<Rightarrow> pystr \<Rightarrow> pyargs \<Rightarrow> pykwargs \<Rightarrow> ('v, 'x) state \<Rightarrow> ('e + 'v) \<times> ('v, 'x) state"
where
  "call_original func key args kwargs s =
     (case func_call func args kwargs (clock s, provider s) of
        (Inl e, t, p) \<Rightarrow> (Inl e, s\<lparr>clock := t, provider := p\<rparr>)
      | (Inr result, t, p) \<Rightarrow>
          (Inr result, s\<lparr>cache := (cache s)(key \<mapsto> (t, result)), clock := t, provider := p\<rparr>))"

text \<open>Lines 25 to 40.\<close>

definition wrapper ::
  "int \<Rightarrow> ('e, 'v, 'x) func \<Rightarrow> pyargs \<Rightarrow> pykwargs \<Rightarrow> ('v, 'x) state \<Rightarrow> ('e + 'v) \<times> ('v, 'x) state"
where
  "wrapper expiry func args kwargs s =
     (let key = cache_key func args kwargs in
      case cache s key of
        Some (timestamp, value) \<Rightarrow>
          if clock s - timestamp < expiry then (Inr value, s)
          else call_original func key args kwargs s
      | None \<Rightarrow> call_original func key args kwargs s)"

text \<open>Lines 13 to 42: the decorator, with the default window.\<close>

definition with_cache ::
  "int option \<Rightarrow> ('e, 'v, 'x) func \<Rightarrow> pyargs \<Rightarrow> pykwargs \<Rightarrow> ('v, 'x) state \<Rightarrow> ('e + 'v) \<times> ('v, 'x) state"
where
  "with_cache expiry func =
     wrapper (case expiry of None \<Rightarrow> CACHE_EXPIRY | Some e \<Rightarrow> e) func"

text \<open>
  Lines 110 to 117: the endpoint that replaces the dictionary by an empty one and returns
  \<open>{"message": "Cache cleared successfully"}\<close>. The wrapper reads the global \<open>cache\<close>
  anew at each call, so it sees the new dictionary.
\<close>

definition clear_cache :: "('v, 'x) state \<Rightarrow> (string \<times> string) list \<times> ('v, 'x) state" where
  "clear_cache s = ([(''message'', ''Cache cleared successfully'')], s\<lparr>cache := Map.empty\<rparr>)"

subsection \<open>Requests in sequence\<close>

text \<open>
  The same request served once for each clock reading of a list, one after the other,
  nothing else touching the state in between.
\<close>

fun serve ::
  "int \<Rightarrow> ('e, 'v, 'x) func \<Rightarrow> pyargs \<Rightarrow> pykwargs \<Rightarrow> int list \<Rightarrow> ('v, 'x) state \<Rightarrow> ('v, 'x) state"
where
  "serve expiry func args kwargs [] s = s"
| "serve expiry func args kwargs (t # ts) s =
     serve expiry func args kwargs ts (snd (wrapper expiry func args kwargs (s\<lparr>clock := t\<rparr>)))"

subsection \<open>Example providers\<close>

text \<open>
  Wrapped functions used in the examples below. The provider is a counter of the calls it
  has received; a call takes three microseconds. \<open>counting_teams\<close>, \<open>get_schedule\<close> and
  \<open>get_team_profile\<close> return the number of the call, and \<open>failing_teams\<close> raises on every
  call.
\<close>

definition counting_teams :: "(string, int, int) func" where
  "counting_teams =
     \<lparr>func_name = pystr_of ''get_teams'',
      func_call = (\<lambda>args kwargs tn. (Inr (snd tn + 1), fst tn + 3, snd tn + 1))\<rparr>"

definition failing_teams :: "(string, int, int) func" where
  "failing_teams =
     \<lparr>func_name = pystr_of ''get_teams'',
      func_call = (\<lambda>args kwargs tn. (Inl ''provider unavailable'', fst tn + 3, snd tn + 1))\<rparr>"

definition get_schedule :: "(string, int, int) func" where
  "get_schedule =
     \<lparr>func_name = pystr_of ''get_schedule'',
      func_call = (\<lambda>args kwargs tn. (Inr (snd tn + 1), fst tn + 3, snd tn + 1))\<rparr>"

definition get_team_profile :: "(string, int, int) func" where
  "get_team_profile =
     \<lparr>func_name = pystr_of ''get_team_profile'',
      func_call = (\<lambda>args kwargs tn. (Inr (snd tn + 1), fst tn + 3, snd tn + 1))\<rparr>"

subsection \<open>Binding of the arguments\<close>

text \<open>
  Line 36 calls \<open>func(*args, **kwargs)\<close>. The call binds the positional arguments to the
  first parameters of \<open>func\<close> in order and each keyword argument to the parameter of its
  name; it raises \<open>TypeError\<close> (here \<open>None\<close>) when there are more positional arguments
  than parameters or when a keyword names no parameter or one already given by position.
  A parameter that is not given keeps its default (every parameter of the endpoints has
  one). The result lists the parameters in their order with the value given to each.
\<close>

definition bind_args ::
  "pystr list \<Rightarrow> pyargs \<Rightarrow> pykwargs \<Rightarrow> (pystr \<times> pyval option) list option"
where
  "bind_args params args kwargs =
     (if length params < length args then None
      else if \<not> list_all (\<lambda>k. k \<in> set (drop (length args) params)) (map fst kwargs) then None
      else Some (map (\<lambda>p. (p, map_of (zip params args @ kwargs) p)) params))"

subsection \<open>Reading a key back\<close>

text \<open>
  Notions used to show that distinct calls have distinct keys: the decimal digits and the
  number a string of digits denotes, a rest of the key that does not go on with a digit,
  and the two quote characters.
\<close>

definition is_digit :: "codepoint \<Rightarrow> bool" where
  "is_digit c = (48 \<le> unat c \<and> unat c < 58)"

definition digit_value :: "codepoint \<Rightarrow> nat" where
  "digit_value c = unat c - 48"

definition digits_value :: "pystr \<Rightarrow> nat" where
  "digits_value cs = foldl (\<lambda>a c. 10 * a + digit_value c) 0 cs"

fun stops :: "pystr \<Rightarrow> bool" where
  "stops [] = True"
| "stops (c # cs) = (\<not> is_digit c)"

definition is_quote :: "codepoint \<Rightarrow> bool" where
  "is_quote q = (q = 0x27 \<or> q = 0x22)"

text \<open>The first character of a printed value: a quote, a minus sign or a digit.\<close>

definition value_start :: "codepoint \<Rightarrow> bool" where
  "value_start c = (is_quote c \<or> c = 0x2D \<or> is_digit c)"

section \<open>Properties\<close>

subsection \<open>Keys of the examples\<close>

lemma counting_teams_key: "cache_key counting_teams [] [] = pystr_of ''get_teams:():{}''"
  by (simp add: cache_key_def counting_teams_def str_args_def str_kwargs_def)

lemma failing_teams_key: "cache_key failing_teams [] [] = pystr_of ''get_teams:():{}''"
  by (simp add: cache_key_def failing_teams_def str_args_def str_kwargs_def)

lemma counting_teams_call:
  "func_call counting_teams args kwargs (t, n) = (Inr (n + 1), t + 3, n + 1)"
  by (simp add: counting_teams_def)

lemma failing_teams_call:
  "func_call failing_teams args kwargs (t, n) = (Inl ''provider unavailable'', t + 3, n + 1)"
  by (simp add: failing_teams_def)

subsection \<open>The two paths of the wrapper\<close>

lemma wrapper_hit:
  assumes "cache s (cache_key func args kwargs) = Some (t0, v)" and "clock s - t0 < expiry"
  shows "wrapper expiry func args kwargs s = (Inr v, s)"
  using assms by (simp add: wrapper_def)

lemma wrapper_absent:
  assumes "cache s (cache_key func args kwargs) = None"
  shows "wrapper expiry func args kwargs s =
         call_original func (cache_key func args kwargs) args kwargs s"
  using assms by (simp add: wrapper_def)

lemma wrapper_expired:
  assumes "cache s (cache_key func args kwargs) = Some (t0, v)" and "expiry \<le> clock s - t0"
  shows "wrapper expiry func args kwargs s =
         call_original func (cache_key func args kwargs) args kwargs s"
  using assms by (simp add: wrapper_def)

lemma wrapper_miss:
  assumes "cache s (cache_key func args kwargs) = None
         \<or> (\<exists>t0 v. cache s (cache_key func args kwargs) = Some (t0, v) \<and> expiry \<le> clock s - t0)"
  shows "wrapper expiry func args kwargs s =
         call_original func (cache_key func args kwargs) args kwargs s"
  using assms by (auto simp: wrapper_absent wrapper_expired)

lemma call_original_raises:
  assumes "func_call func args kwargs (clock s, provider s) = (Inl e, t, p)"
  shows "call_original func key args kwargs s = (Inl e, s\<lparr>clock := t, provider := p\<rparr>)"
  using assms by (simp add: call_original_def)

lemma call_original_returns:
  assumes "func_call func args kwargs (clock s, provider s) = (Inr r, t, p)"
  shows "call_original func key args kwargs s =
         (Inr r, s\<lparr>cache := (cache s)(key \<mapsto> (t, r)), clock := t, provider := p\<rparr>)"
  using assms by (simp add: call_original_def)

lemma wrapper_returns_entry:
  assumes "wrapper expiry func args kwargs s0 = (Inr v, s1)"
  shows "\<exists>t. cache s1 (cache_key func args kwargs) = Some (t, v)"
  using assms
  by (auto simp: wrapper_def call_original_def Let_def
           split: option.splits if_splits prod.splits sum.splits)

lemma with_cache_window: "with_cache (Some expiry) func = wrapper expiry func"
  by (simp add: with_cache_def)

lemma with_cache_default: "with_cache None func = wrapper (15 * 60 * 1000000) func"
  by (simp add: with_cache_def CACHE_EXPIRY_def)

subsection \<open>Hits\<close>

text \<open>
  C1. A call returned \<open>v\<close> and left an entry with timestamp \<open>t0\<close> under the key. A later
  call of the same function with the same arguments, made while the entry is still there
  and the clock reads less than \<open>t0 + expiry\<close>, returns \<open>v\<close> and leaves the whole state as
  it found it: the clock and the provider are untouched, so the wrapped function was not
  called.
\<close>

theorem hit_within_window:
  assumes "wrapper expiry func args kwargs s0 = (Inr v, s1)"
    and "cache s1 (cache_key func args kwargs) = Some (t0, v')"
    and "cache s2 (cache_key func args kwargs) = cache s1 (cache_key func args kwargs)"
    and "clock s2 - t0 < expiry"
  shows "v' = v \<and> wrapper expiry func args kwargs s2 = (Inr v, s2)"
proof -
  from wrapper_returns_entry [OF assms(1)]
  obtain t where "cache s1 (cache_key func args kwargs) = Some (t, v)" ..
  with assms(2) have same: "v' = v" by simp
  from assms(2,3) have "cache s2 (cache_key func args kwargs) = Some (t0, v')" by simp
  then have "wrapper expiry func args kwargs s2 = (Inr v', s2)"
    using assms(4) by (rule wrapper_hit)
  with same show ?thesis by simp
qed

text \<open>
  Two calls of \<open>counting_teams\<close> with a window of 10: the first, at time 0, is the
  provider's call number 1 and completes at time 3; the second, at time 12, returns 1
  again and the provider has still received one call.
\<close>

theorem hit_within_window_witness:
  "wrapper 10 counting_teams [] [] \<lparr>cache = Map.empty, clock = 0, provider = 0\<rparr>
     = (Inr 1, \<lparr>cache = [pystr_of ''get_teams:():{}'' \<mapsto> (3, 1)], clock = 3, provider = 1\<rparr>)
   \<and> wrapper 10 counting_teams [] []
        \<lparr>cache = [pystr_of ''get_teams:():{}'' \<mapsto> (3, 1)], clock = 12, provider = 1\<rparr>
     = (Inr 1, \<lparr>cache = [pystr_of ''get_teams:():{}'' \<mapsto> (3, 1)], clock = 12, provider = 1\<rparr>)"
proof -
  let ?s0 = "\<lparr>cache = Map.empty, clock = 0, provider = 0\<rparr> :: (int, int) state"
  let ?s1 = "\<lparr>cache = [pystr_of ''get_teams:():{}'' \<mapsto> (3, 1)], clock = 3, provider = 1\<rparr> :: (int, int) state"
  let ?s2 = "\<lparr>cache = [pystr_of ''get_teams:():{}'' \<mapsto> (3, 1)], clock = 12, provider = 1\<rparr> :: (int, int) state"
  have first: "wrapper 10 counting_teams [] [] ?s0 = (Inr 1, ?s1)"
    by (simp add: wrapper_def call_original_def counting_teams_key counting_teams_call)
  have entry: "cache ?s1 (cache_key counting_teams [] []) = Some (3, 1)"
    by (simp add: counting_teams_key)
  have kept: "cache ?s2 (cache_key counting_teams [] []) = cache ?s1 (cache_key counting_teams [] [])"
    by simp
  have fresh: "clock ?s2 - 3 < (10::int)"
    by simp
  from hit_within_window [OF first entry kept fresh] first show ?thesis
    by simp
qed

text \<open>
  C10. A hit writes nothing. While an entry with timestamp \<open>t0\<close> is served at clock
  readings below \<open>t0 + expiry\<close>, however many, the dictionary and the provider stay as
  they were, so the timestamp is still \<open>t0\<close>; the first call at a reading of
  \<open>t0 + expiry\<close> or more calls the wrapped function.
\<close>

theorem hit_writes_nothing:
  assumes "cache s (cache_key func args kwargs) = Some (t0, v)"
    and "\<forall>t \<in> set ts. t - t0 < expiry"
    and "expiry \<le> t' - t0"
  shows "cache (serve expiry func args kwargs ts s) = cache s
       \<and> provider (serve expiry func args kwargs ts s) = provider s
       \<and> wrapper expiry func args kwargs ((serve expiry func args kwargs ts s)\<lparr>clock := t'\<rparr>)
         = call_original func (cache_key func args kwargs) args kwargs
             ((serve expiry func args kwargs ts s)\<lparr>clock := t'\<rparr>)"
proof -
  have kept: "cache (serve expiry func args kwargs ts s) = cache s
            \<and> provider (serve expiry func args kwargs ts s) = provider s"
    using assms(1,2)
  proof (induction ts arbitrary: s)
    case Nil
    then show ?case by simp
  next
    case (Cons t ts)
    let ?s = "s\<lparr>clock := t\<rparr>"
    from Cons.prems have "cache ?s (cache_key func args kwargs) = Some (t0, v)"
      and "clock ?s - t0 < expiry" by simp_all
    then have step: "wrapper expiry func args kwargs ?s = (Inr v, ?s)"
      by (rule wrapper_hit)
    have "cache (serve expiry func args kwargs ts ?s) = cache ?s
        \<and> provider (serve expiry func args kwargs ts ?s) = provider ?s"
      using Cons.prems by (intro Cons.IH) simp_all
    with step show ?case by simp
  qed
  let ?s' = "(serve expiry func args kwargs ts s)\<lparr>clock := t'\<rparr>"
  from kept assms(1) have "cache ?s' (cache_key func args kwargs) = Some (t0, v)"
    by simp
  moreover from assms(3) have "expiry \<le> clock ?s' - t0"
    by simp
  ultimately have "wrapper expiry func args kwargs ?s'
      = call_original func (cache_key func args kwargs) args kwargs ?s'"
    by (rule wrapper_expired)
  with kept show ?thesis by simp
qed

text \<open>
  An entry made at time 3, window 10: served at 4, 8 and 12 it is unchanged and the
  provider has received no further call; at 13 the wrapped function is called.
\<close>

theorem hit_writes_nothing_witness:
  "cache (serve 10 counting_teams [] [] [4, 8, 12]
       \<lparr>cache = [pystr_of ''get_teams:():{}'' \<mapsto> (3, 1)], clock = 3, provider = 1\<rparr>)
     = [pystr_of ''get_teams:():{}'' \<mapsto> (3, 1)]
   \<and> provider (serve 10 counting_teams [] [] [4, 8, 12]
       \<lparr>cache = [pystr_of ''get_teams:():{}'' \<mapsto> (3, 1)], clock = 3, provider = 1\<rparr>) = 1
   \<and> fst (wrapper 10 counting_teams [] []
       ((serve 10 counting_teams [] [] [4, 8, 12]
          \<lparr>cache = [pystr_of ''get_teams:():{}'' \<mapsto> (3, 1)], clock = 3, provider = 1\<rparr>)\<lparr>clock := 13\<rparr>))
     = Inr 2"
proof -
  let ?s = "\<lparr>cache = [pystr_of ''get_teams:():{}'' \<mapsto> (3, 1)], clock = 3, provider = 1\<rparr> :: (int, int) state"
  have entry: "cache ?s (cache_key counting_teams [] []) = Some (3, 1)"
    by (simp add: counting_teams_key)
  have early: "\<forall>t \<in> set [4, 8, 12]. t - 3 < (10::int)"
    by simp
  have late: "(10::int) \<le> 13 - 3"
    by simp
  note h = hit_writes_nothing [OF entry early late]
  from h have c: "cache (serve 10 counting_teams [] [] [4, 8, 12] ?s) = cache ?s"
    and p: "provider (serve 10 counting_teams [] [] [4, 8, 12] ?s) = provider ?s"
    and w: "wrapper 10 counting_teams [] [] ((serve 10 counting_teams [] [] [4, 8, 12] ?s)\<lparr>clock := 13\<rparr>)
         = call_original counting_teams (cache_key counting_teams [] []) [] []
             ((serve 10 counting_teams [] [] [4, 8, 12] ?s)\<lparr>clock := 13\<rparr>)"
    by blast+
  have "fst (call_original counting_teams k [] [] (x\<lparr>clock := 13\<rparr>)) = Inr 2"
    if "provider x = 1" for x :: "(int, int) state" and k
    using that by (simp add: call_original_def counting_teams_call)
  from this [of "serve 10 counting_teams [] [] [4, 8, 12] ?s"] p w
  have "fst (wrapper 10 counting_teams [] []
          ((serve 10 counting_teams [] [] [4, 8, 12] ?s)\<lparr>clock := 13\<rparr>)) = Inr 2"
    by simp
  moreover from c have "cache (serve 10 counting_teams [] [] [4, 8, 12] ?s)
      = [pystr_of ''get_teams:():{}'' \<mapsto> (3, 1)]"
    by simp
  moreover from p have "provider (serve 10 counting_teams [] [] [4, 8, 12] ?s) = 1"
    by simp
  ultimately show ?thesis by blast
qed

subsection \<open>Misses\<close>

text \<open>
  C3. The comparison on line 32 is strict. An entry whose age \<open>clock - timestamp\<close> is
  exactly the window is not returned: the wrapper takes lines 35 to 40, so what it returns
  is what the wrapped function returns now, and the clock and the provider are as that
  call left them.
\<close>

theorem boundary_is_expired:
  assumes "cache s (cache_key func args kwargs) = Some (t0, v)"
    and "clock s - t0 = expiry"
    and "func_call func args kwargs (clock s, provider s) = (r, t, p)"
  shows "wrapper expiry func args kwargs s
           = call_original func (cache_key func args kwargs) args kwargs s
       \<and> fst (wrapper expiry func args kwargs s) = r
       \<and> clock (snd (wrapper expiry func args kwargs s)) = t
       \<and> provider (snd (wrapper expiry func args kwargs s)) = p"
proof -
  from assms(2) have "expiry \<le> clock s - t0" by simp
  with assms(1) have w: "wrapper expiry func args kwargs s
      = call_original func (cache_key func args kwargs) args kwargs s"
    by (rule wrapper_expired)
  show ?thesis
  proof (cases r)
    case (Inl e)
    with assms(3) w show ?thesis by (simp add: call_original_raises)
  next
    case (Inr x)
    with assms(3) w show ?thesis by (simp add: call_original_returns)
  qed
qed

text \<open>
  An entry made at time 3, window 10, read at time 13: the provider receives its second
  call, whose value is returned and stored.
\<close>

theorem boundary_is_expired_witness:
  "wrapper 10 counting_teams [] []
      \<lparr>cache = [pystr_of ''get_teams:():{}'' \<mapsto> (3, 1)], clock = 13, provider = 1\<rparr>
     = (Inr 2, \<lparr>cache = [pystr_of ''get_teams:():{}'' \<mapsto> (16, 2)], clock = 16, provider = 2\<rparr>)"
proof -
  let ?s = "\<lparr>cache = [pystr_of ''get_teams:():{}'' \<mapsto> (3, 1)], clock = 13, provider = 1\<rparr> :: (int, int) state"
  have entry: "cache ?s (cache_key counting_teams [] []) = Some (3, 1)"
    by (simp add: counting_teams_key)
  have age: "clock ?s - 3 = (10::int)"
    by simp
  have call: "func_call counting_teams [] [] (clock ?s, provider ?s) = (Inr 2, 16, 2)"
    by (simp add: counting_teams_call)
  from boundary_is_expired [OF entry age call]
  have "wrapper 10 counting_teams [] [] ?s
      = call_original counting_teams (cache_key counting_teams [] []) [] [] ?s"
    by blast
  then show ?thesis
    by (simp add: call_original_def counting_teams_call counting_teams_key)
qed

text \<open>
  C4. There is no hit (no entry under the key, or one as old as the window or older) and
  the wrapped function raises \<open>e\<close>. The wrapper raises the same \<open>e\<close>; the dictionary is the
  one it found, so nothing was stored and an entry that was there is as it was. A later
  call with the same arguments, made with the entry under the key still as it was and the
  clock not behind its reading at the first call, takes lines 35 to 40 again.
\<close>

theorem failure_not_cached:
  assumes "cache s (cache_key func args kwargs) = None
         \<or> (\<exists>t0 v. cache s (cache_key func args kwargs) = Some (t0, v) \<and> expiry \<le> clock s - t0)"
    and "func_call func args kwargs (clock s, provider s) = (Inl e, t, p)"
    and "cache s2 (cache_key func args kwargs) = cache s (cache_key func args kwargs)"
    and "clock s \<le> clock s2"
  shows "wrapper expiry func args kwargs s = (Inl e, s\<lparr>clock := t, provider := p\<rparr>)
       \<and> cache (snd (wrapper expiry func args kwargs s)) = cache s
       \<and> wrapper expiry func args kwargs s2
           = call_original func (cache_key func args kwargs) args kwargs s2"
proof -
  have "wrapper expiry func args kwargs s
      = call_original func (cache_key func args kwargs) args kwargs s"
    using assms(1) by (rule wrapper_miss)
  with assms(2) have first: "wrapper expiry func args kwargs s = (Inl e, s\<lparr>clock := t, provider := p\<rparr>)"
    by (simp add: call_original_raises)
  from assms(1,3,4)
  have "cache s2 (cache_key func args kwargs) = None
      \<or> (\<exists>t0 v. cache s2 (cache_key func args kwargs) = Some (t0, v) \<and> expiry \<le> clock s2 - t0)"
    by auto
  then have "wrapper expiry func args kwargs s2
      = call_original func (cache_key func args kwargs) args kwargs s2"
    by (rule wrapper_miss)
  with first show ?thesis by simp
qed

text \<open>
  An entry made at time 0 is read at time 20 with a window of 10 and the provider fails:
  the wrapper raises the provider's error and the old entry stays. At time 30 the
  provider is called again and the wrapper raises again.
\<close>

theorem failure_not_cached_witness:
  "wrapper 10 failing_teams [] []
      \<lparr>cache = [pystr_of ''get_teams:():{}'' \<mapsto> (0, 7)], clock = 20, provider = 0\<rparr>
     = (Inl ''provider unavailable'',
        \<lparr>cache = [pystr_of ''get_teams:():{}'' \<mapsto> (0, 7)], clock = 23, provider = 1\<rparr>)
   \<and> wrapper 10 failing_teams [] []
      \<lparr>cache = [pystr_of ''get_teams:():{}'' \<mapsto> (0, 7)], clock = 30, provider = 1\<rparr>
     = (Inl ''provider unavailable'',
        \<lparr>cache = [pystr_of ''get_teams:():{}'' \<mapsto> (0, 7)], clock = 33, provider = 2\<rparr>)"
proof -
  let ?s = "\<lparr>cache = [pystr_of ''get_teams:():{}'' \<mapsto> (0, 7)], clock = 20, provider = 0\<rparr> :: (int, int) state"
  let ?s2 = "\<lparr>cache = [pystr_of ''get_teams:():{}'' \<mapsto> (0, 7)], clock = 30, provider = 1\<rparr> :: (int, int) state"
  have miss: "cache ?s (cache_key failing_teams [] []) = None
      \<or> (\<exists>t0 v. cache ?s (cache_key failing_teams [] []) = Some (t0, v) \<and> 10 \<le> clock ?s - t0)"
    by (simp add: failing_teams_key)
  have fails: "func_call failing_teams [] [] (clock ?s, provider ?s)
      = (Inl ''provider unavailable'', 23, 1)"
    by (simp add: failing_teams_call)
  have kept: "cache ?s2 (cache_key failing_teams [] []) = cache ?s (cache_key failing_teams [] [])"
    by simp
  have later: "clock ?s \<le> clock ?s2"
    by simp
  from failure_not_cached [OF miss fails kept later]
  have first: "wrapper 10 failing_teams [] [] ?s
      = (Inl ''provider unavailable'', ?s\<lparr>clock := 23, provider := 1\<rparr>)"
    and again: "wrapper 10 failing_teams [] [] ?s2
      = call_original failing_teams (cache_key failing_teams [] []) [] [] ?s2"
    by blast+
  from again have "wrapper 10 failing_teams [] [] ?s2
      = (Inl ''provider unavailable'', ?s2\<lparr>clock := 33, provider := 2\<rparr>)"
    by (simp add: call_original_def failing_teams_call)
  with first show ?thesis by simp
qed

text \<open>
  C5. There is no hit and the wrapped function, called with the arguments of the call,
  returns \<open>r\<close>: the wrapper returns \<open>r\<close> and stores it under the key with the time read
  after the call. When a second call finds that entry as old as the window or older, the
  wrapped function is called a second time and its result \<open>r2\<close>, whatever it is, is
  returned and stored.
\<close>

theorem miss_calls_and_stores:
  assumes "cache s (cache_key func args kwargs) = None
         \<or> (\<exists>t0 v. cache s (cache_key func args kwargs) = Some (t0, v) \<and> expiry \<le> clock s - t0)"
    and "func_call func args kwargs (clock s, provider s) = (Inr r, t, p)"
    and "cache s2 (cache_key func args kwargs) = Some (t, r)"
    and "expiry \<le> clock s2 - t"
    and "func_call func args kwargs (clock s2, provider s2) = (Inr r2, t2, p2)"
  shows "wrapper expiry func args kwargs s
           = (Inr r, s\<lparr>cache := (cache s)(cache_key func args kwargs \<mapsto> (t, r)),
                       clock := t, provider := p\<rparr>)
       \<and> wrapper expiry func args kwargs s2
           = (Inr r2, s2\<lparr>cache := (cache s2)(cache_key func args kwargs \<mapsto> (t2, r2)),
                         clock := t2, provider := p2\<rparr>)"
proof -
  have "wrapper expiry func args kwargs s
      = call_original func (cache_key func args kwargs) args kwargs s"
    using assms(1) by (rule wrapper_miss)
  with assms(2) have first: "wrapper expiry func args kwargs s
      = (Inr r, s\<lparr>cache := (cache s)(cache_key func args kwargs \<mapsto> (t, r)),
                  clock := t, provider := p\<rparr>)"
    by (simp add: call_original_returns)
  have "wrapper expiry func args kwargs s2
      = call_original func (cache_key func args kwargs) args kwargs s2"
    using assms(3,4) by (rule wrapper_expired)
  with assms(5) have "wrapper expiry func args kwargs s2
      = (Inr r2, s2\<lparr>cache := (cache s2)(cache_key func args kwargs \<mapsto> (t2, r2)),
                    clock := t2, provider := p2\<rparr>)"
    by (simp add: call_original_returns)
  with first show ?thesis by simp
qed

text \<open>
  Window 10. The first call, at time 0, returns 1 and stores it with time 3; the second,
  at time 20, returns 2 and stores it with time 23.
\<close>

theorem miss_calls_and_stores_witness:
  "wrapper 10 counting_teams [] [] \<lparr>cache = Map.empty, clock = 0, provider = 0\<rparr>
     = (Inr 1, \<lparr>cache = [pystr_of ''get_teams:():{}'' \<mapsto> (3, 1)], clock = 3, provider = 1\<rparr>)
   \<and> wrapper 10 counting_teams [] []
        \<lparr>cache = [pystr_of ''get_teams:():{}'' \<mapsto> (3, 1)], clock = 20, provider = 1\<rparr>
     = (Inr 2, \<lparr>cache = [pystr_of ''get_teams:():{}'' \<mapsto> (23, 2)], clock = 23, provider = 2\<rparr>)"
proof -
  let ?s = "\<lparr>cache = Map.empty, clock = 0, provider = 0\<rparr> :: (int, int) state"
  let ?s2 = "\<lparr>cache = [pystr_of ''get_teams:():{}'' \<mapsto> (3, 1)], clock = 20, provider = 1\<rparr> :: (int, int) state"
  have miss: "cache ?s (cache_key counting_teams [] []) = None
      \<or> (\<exists>t0 v. cache ?s (cache_key counting_teams [] []) = Some (t0, v) \<and> 10 \<le> clock ?s - t0)"
    by simp
  have call1: "func_call counting_teams [] [] (clock ?s, provider ?s) = (Inr 1, 3, 1)"
    by (simp add: counting_teams_call)
  have entry: "cache ?s2 (cache_key counting_teams [] []) = Some (3, 1)"
    by (simp add: counting_teams_key)
  have old: "(10::int) \<le> clock ?s2 - 3"
    by simp
  have call2: "func_call counting_teams [] [] (clock ?s2, provider ?s2) = (Inr 2, 23, 2)"
    by (simp add: counting_teams_call)
  from miss_calls_and_stores [OF miss call1 entry old call2]
  show ?thesis
    by (simp add: counting_teams_key)
qed

text \<open>
  C9. The timestamp of a new entry is the time read on line 39, after the wrapped function
  has completed, not the time at which the wrapper looked the key up. So whether a later
  call finds the entry fresh depends on the completion time \<open>t\<close> alone: it is a hit when
  the clock reads less than \<open>t + expiry\<close> and a call of the wrapped function otherwise,
  whatever the clock read when the first call began.
\<close>

theorem timestamp_after_completion:
  assumes "cache s (cache_key func args kwargs) = None
         \<or> (\<exists>t0 v. cache s (cache_key func args kwargs) = Some (t0, v) \<and> expiry \<le> clock s - t0)"
    and "func_call func args kwargs (clock s, provider s) = (Inr r, t, p)"
    and "cache s2 (cache_key func args kwargs)
           = cache (snd (wrapper expiry func args kwargs s)) (cache_key func args kwargs)"
  shows "cache (snd (wrapper expiry func args kwargs s)) (cache_key func args kwargs) = Some (t, r)
       \<and> wrapper expiry func args kwargs s2
           = (if clock s2 - t < expiry then (Inr r, s2)
              else call_original func (cache_key func args kwargs) args kwargs s2)"
proof -
  have "wrapper expiry func args kwargs s
      = call_original func (cache_key func args kwargs) args kwargs s"
    using assms(1) by (rule wrapper_miss)
  with assms(2) have stored:
    "cache (snd (wrapper expiry func args kwargs s)) (cache_key func args kwargs) = Some (t, r)"
    by (simp add: call_original_returns)
  with assms(3) have "cache s2 (cache_key func args kwargs) = Some (t, r)"
    by simp
  then have "wrapper expiry func args kwargs s2
      = (if clock s2 - t < expiry then (Inr r, s2)
         else call_original func (cache_key func args kwargs) args kwargs s2)"
    by (simp add: wrapper_def)
  with stored show ?thesis by simp
qed

text \<open>
  Window 10. The lookup is at time 0 and the provider completes at time 3, so the entry
  has timestamp 3. At time 12, which is 12 after the lookup and 9 after the completion,
  the call is a hit: the provider has still received one call.
\<close>

theorem timestamp_after_completion_witness:
  "cache (snd (wrapper 10 counting_teams [] [] \<lparr>cache = Map.empty, clock = 0, provider = 0\<rparr>))
      (pystr_of ''get_teams:():{}'') = Some (3, 1)
   \<and> wrapper 10 counting_teams [] []
        \<lparr>cache = [pystr_of ''get_teams:():{}'' \<mapsto> (3, 1)], clock = 12, provider = 1\<rparr>
     = (Inr 1, \<lparr>cache = [pystr_of ''get_teams:():{}'' \<mapsto> (3, 1)], clock = 12, provider = 1\<rparr>)"
proof -
  let ?s = "\<lparr>cache = Map.empty, clock = 0, provider = 0\<rparr> :: (int, int) state"
  let ?s2 = "\<lparr>cache = [pystr_of ''get_teams:():{}'' \<mapsto> (3, 1)], clock = 12, provider = 1\<rparr> :: (int, int) state"
  have miss: "cache ?s (cache_key counting_teams [] []) = None
      \<or> (\<exists>t0 v. cache ?s (cache_key counting_teams [] []) = Some (t0, v) \<and> 10 \<le> clock ?s - t0)"
    by simp
  have call: "func_call counting_teams [] [] (clock ?s, provider ?s) = (Inr 1, 3, 1)"
    by (simp add: counting_teams_call)
  have kept: "cache ?s2 (cache_key counting_teams [] [])
      = cache (snd (wrapper 10 counting_teams [] [] ?s)) (cache_key counting_teams [] [])"
    by (simp add: wrapper_def call_original_def counting_teams_call counting_teams_key)
  from timestamp_after_completion [OF miss call kept] show ?thesis
    by (simp add: counting_teams_key)
qed

subsection \<open>The dictionary\<close>

text \<open>
  C8. The dictionary holds one entry for a key or none. The store on line 39 cannot fail;
  it leaves every other key as it was, and the key holds the new pair and nothing else.
  When the key was there already the number of entries is the same as before, the old
  pair being replaced; when it was not, there is one entry more.
\<close>

theorem store_replaces_entry:
  assumes "cache s (cache_key func args kwargs) = None
         \<or> (\<exists>t0 v. cache s (cache_key func args kwargs) = Some (t0, v) \<and> expiry \<le> clock s - t0)"
    and "func_call func args kwargs (clock s, provider s) = (Inr r, t, p)"
    and "finite (dom (cache s))"
  shows "cache (snd (wrapper expiry func args kwargs s))
           = (cache s)(cache_key func args kwargs \<mapsto> (t, r))
       \<and> dom (cache (snd (wrapper expiry func args kwargs s)))
           = insert (cache_key func args kwargs) (dom (cache s))
       \<and> card (dom (cache (snd (wrapper expiry func args kwargs s))))
           = (if cache_key func args kwargs \<in> dom (cache s) then card (dom (cache s))
              else card (dom (cache s)) + 1)"
proof -
  have "wrapper expiry func args kwargs s
      = call_original func (cache_key func args kwargs) args kwargs s"
    using assms(1) by (rule wrapper_miss)
  with assms(2) have stored: "cache (snd (wrapper expiry func args kwargs s))
      = (cache s)(cache_key func args kwargs \<mapsto> (t, r))"
    by (simp add: call_original_returns)
  then have d: "dom (cache (snd (wrapper expiry func args kwargs s)))
      = insert (cache_key func args kwargs) (dom (cache s))"
    by simp
  have "card (insert (cache_key func args kwargs) (dom (cache s)))
      = (if cache_key func args kwargs \<in> dom (cache s) then card (dom (cache s))
         else card (dom (cache s)) + 1)"
    using assms(3) by (simp add: insert_absorb)
  with stored d show ?thesis by simp
qed

text \<open>
  A dictionary of two entries, one of them under the key and older than the window of
  10: after the call the key holds the new pair and there are still two entries.
\<close>

theorem store_replaces_entry_witness:
  "cache (snd (wrapper 10 counting_teams [] []
       \<lparr>cache = [pystr_of ''get_teams:():{}'' \<mapsto> (3, 1), pystr_of ''other'' \<mapsto> (5, 9)], clock = 20, provider = 1\<rparr>))
     = [pystr_of ''get_teams:():{}'' \<mapsto> (23, 2), pystr_of ''other'' \<mapsto> (5, 9)]
   \<and> card (dom (cache (snd (wrapper 10 counting_teams [] []
       \<lparr>cache = [pystr_of ''get_teams:():{}'' \<mapsto> (3, 1), pystr_of ''other'' \<mapsto> (5, 9)], clock = 20, provider = 1\<rparr>))))
     = 2"
proof -
  let ?s = "\<lparr>cache = [pystr_of ''get_teams:():{}'' \<mapsto> (3, 1), pystr_of ''other'' \<mapsto> (5, 9)], clock = 20, provider = 1\<rparr>
    :: (int, int) state"
  have miss: "cache ?s (cache_key counting_teams [] []) = None
      \<or> (\<exists>t0 v. cache ?s (cache_key counting_teams [] []) = Some (t0, v) \<and> 10 \<le> clock ?s - t0)"
    by (simp add: counting_teams_key)
  have call: "func_call counting_teams [] [] (clock ?s, provider ?s) = (Inr 2, 23, 2)"
    by (simp add: counting_teams_call)
  have fin: "finite (dom (cache ?s))"
    by simp
  from store_replaces_entry [OF miss call fin]
  have c: "cache (snd (wrapper 10 counting_teams [] [] ?s))
      = (cache ?s)(cache_key counting_teams [] [] \<mapsto> (23, 2))"
    and n: "card (dom (cache (snd (wrapper 10 counting_teams [] [] ?s))))
      = (if cache_key counting_teams [] [] \<in> dom (cache ?s) then card (dom (cache ?s))
         else card (dom (cache ?s)) + 1)"
    by blast+
  from c have "cache (snd (wrapper 10 counting_teams [] [] ?s))
      = [pystr_of ''get_teams:():{}'' \<mapsto> (23, 2), pystr_of ''other'' \<mapsto> (5, 9)]"
    by (auto simp: counting_teams_key fun_eq_iff)
  moreover from n have "card (dom (cache (snd (wrapper 10 counting_teams [] [] ?s)))) = 2"
    by (simp add: counting_teams_key)
  ultimately show ?thesis by blast
qed

text \<open>
  C7. \<open>clear_cache\<close> has no failing path and returns its confirmation. After it no key
  has an entry, so the next call of any wrapped function with any arguments, at any time,
  takes lines 35 to 40, also for a key that was a hit just before. Clearing twice is the
  same as clearing once, and clearing an empty dictionary leaves the state as it was.
\<close>

theorem clear_cache_resets:
  "fst (clear_cache s) = [(''message'', ''Cache cleared successfully'')]
   \<and> cache (snd (clear_cache s)) key = None
   \<and> wrapper expiry func args kwargs ((snd (clear_cache s))\<lparr>clock := t, provider := p\<rparr>)
       = call_original func (cache_key func args kwargs) args kwargs
           ((snd (clear_cache s))\<lparr>clock := t, provider := p\<rparr>)
   \<and> clear_cache (snd (clear_cache s)) = clear_cache s
   \<and> clear_cache (s\<lparr>cache := Map.empty\<rparr>)
       = ([(''message'', ''Cache cleared successfully'')], s\<lparr>cache := Map.empty\<rparr>)"
proof -
  have "cache ((snd (clear_cache s))\<lparr>clock := t, provider := p\<rparr>) (cache_key func args kwargs) = None"
    by (simp add: clear_cache_def)
  then have "wrapper expiry func args kwargs ((snd (clear_cache s))\<lparr>clock := t, provider := p\<rparr>)
      = call_original func (cache_key func args kwargs) args kwargs
          ((snd (clear_cache s))\<lparr>clock := t, provider := p\<rparr>)"
    by (rule wrapper_absent)
  then show ?thesis
    by (simp add: clear_cache_def)
qed

text \<open>
  An entry made at time 3 with a window of 10 is a hit at time 5. After \<open>clear_cache\<close>,
  the same call at time 6 reaches the provider, which receives its second call.
\<close>

theorem clear_cache_resets_witness:
  "wrapper 10 counting_teams [] []
      \<lparr>cache = [pystr_of ''get_teams:():{}'' \<mapsto> (3, 1)], clock = 5, provider = 1\<rparr>
     = (Inr 1, \<lparr>cache = [pystr_of ''get_teams:():{}'' \<mapsto> (3, 1)], clock = 5, provider = 1\<rparr>)
   \<and> wrapper 10 counting_teams [] []
      ((snd (clear_cache \<lparr>cache = [pystr_of ''get_teams:():{}'' \<mapsto> (3, 1)], clock = 5, provider = 1\<rparr>))
         \<lparr>clock := 6, provider := 1\<rparr>)
     = (Inr 2, \<lparr>cache = [pystr_of ''get_teams:():{}'' \<mapsto> (9, 2)], clock = 9, provider = 2\<rparr>)"
proof -
  let ?s = "\<lparr>cache = [pystr_of ''get_teams:():{}'' \<mapsto> (3, 1)], clock = 5, provider = 1\<rparr> :: (int, int) state"
  have hit: "wrapper 10 counting_teams [] [] ?s = (Inr 1, ?s)"
    by (simp add: wrapper_def counting_teams_key)
  from clear_cache_resets [where s = ?s and expiry = 10 and func = counting_teams
      and args = "[]" and kwargs = "[]" and t = 6 and p = 1]
  have "wrapper 10 counting_teams [] [] ((snd (clear_cache ?s))\<lparr>clock := 6, provider := 1\<rparr>)
      = call_original counting_teams (cache_key counting_teams [] []) [] []
          ((snd (clear_cache ?s))\<lparr>clock := 6, provider := 1\<rparr>)"
    by blast
  then have "wrapper 10 counting_teams [] [] ((snd (clear_cache ?s))\<lparr>clock := 6, provider := 1\<rparr>)
      = (Inr 2, \<lparr>cache = [pystr_of ''get_teams:():{}'' \<mapsto> (9, 2)], clock = 9, provider = 2\<rparr>)"
    by (simp add: call_original_def counting_teams_call counting_teams_key clear_cache_def)
  with hit show ?thesis by blast
qed

subsection \<open>Distinct calls have distinct keys\<close>

lemma unat_digit_char: "n < 10 \<Longrightarrow> unat (digit_char n) = 48 + n"
  unfolding digit_char_def by (rule of_nat_inverse [OF refl]) simp

lemma is_digit_digit_char: "n < 10 \<Longrightarrow> is_digit (digit_char n)"
  by (simp add: is_digit_def unat_digit_char)

lemma digit_value_digit_char: "n < 10 \<Longrightarrow> digit_value (digit_char n) = n"
  by (simp add: digit_value_def unat_digit_char)

lemma digits_all_digits: "\<forall>c \<in> set (digits n). is_digit c"
  by (induction n rule: digits.induct) (subst digits.simps, simp add: is_digit_digit_char)

lemma digits_not_Nil: "digits n \<noteq> []"
  by (subst digits.simps) simp

lemma digits_value_digits: "digits_value (digits n) = n"
proof (induction n rule: digits.induct)
  case (1 n)
  show ?case
  proof (cases "n < 10")
    case True
    then show ?thesis
      by (subst digits.simps) (simp add: digits_value_def digit_value_digit_char)
  next
    case False
    with 1 have "digits_value (digits (n div 10)) = n div 10" by simp
    with False show ?thesis
      by (subst digits.simps) (simp add: digits_value_def digit_value_digit_char)
  qed
qed

lemma digits_inj: "digits n = digits m \<Longrightarrow> n = m"
  by (metis digits_value_digits)

lemma takeWhile_stops:
  assumes "\<forall>c \<in> set xs. is_digit c" and "stops r"
  shows "takeWhile is_digit (xs @ r) = xs"
  using assms by (cases r) simp_all

lemma digits_prefix:
  assumes "digits n @ r1 = digits m @ r2" and "stops r1" and "stops r2"
  shows "n = m \<and> r1 = r2"
proof -
  have "takeWhile is_digit (digits n @ r1) = digits n"
    using digits_all_digits assms(2) by (rule takeWhile_stops)
  moreover have "takeWhile is_digit (digits m @ r2) = digits m"
    using digits_all_digits assms(3) by (rule takeWhile_stops)
  ultimately have "digits n = digits m" using assms(1) by simp
  with assms(1) show ?thesis by (simp add: digits_inj)
qed

lemma digits_hd: "\<exists>c cs. digits n = c # cs \<and> is_digit c"
  using digits_all_digits [of n] digits_not_Nil [of n] by (cases "digits n") auto

lemma minus_not_digit: "\<not> is_digit 0x2D"
  by (simp add: is_digit_def)

lemma repr_int_prefix:
  assumes "repr_int i @ r1 = repr_int j @ r2" and "stops r1" and "stops r2"
  shows "i = j \<and> r1 = r2"
proof -
  consider (nn) "i < 0" "j < 0" | (np) "i < 0" "0 \<le> j" | (pn) "0 \<le> i" "j < 0" | (pp) "0 \<le> i" "0 \<le> j"
    by linarith
  then show ?thesis
  proof cases
    case nn
    with assms(1) have "digits (nat (- i)) @ r1 = digits (nat (- j)) @ r2"
      by (simp add: repr_int_def)
    from digits_prefix [OF this assms(2,3)] nn show ?thesis by (auto simp: eq_nat_nat_iff)
  next
    case np
    obtain c cs where "digits (nat j) = c # cs" "is_digit c" using digits_hd by blast
    with np assms(1) show ?thesis by (auto simp: repr_int_def minus_not_digit)
  next
    case pn
    obtain c cs where "digits (nat i) = c # cs" "is_digit c" using digits_hd by blast
    with pn assms(1) show ?thesis by (auto simp: repr_int_def minus_not_digit)
  next
    case pp
    with assms(1) have "digits (nat i) @ r1 = digits (nat j) @ r2"
      by (simp add: repr_int_def)
    from digits_prefix [OF this assms(2,3)] pp show ?thesis by (auto simp: eq_nat_nat_iff)
  qed
qed


lemma hex_char_code: "n < 16 \<Longrightarrow> unat (hex_char n) = (if n < 10 then 48 + n else 87 + n)"
  unfolding hex_char_def by (rule of_nat_inverse [OF refl]) simp

lemma hex_char_inj:
  assumes "hex_char a = hex_char b" and "a < 16" and "b < 16"
  shows "a = b"
proof -
  from assms(1) have "unat (hex_char a) = unat (hex_char b)" by simp
  with assms(2,3) show ?thesis
    by (simp add: hex_char_code split: if_splits)
qed

lemma length_hex_digits: "length (hex_digits k n) = k"
  by (induction k arbitrary: n) simp_all

lemma hex_digits_inj:
  assumes "hex_digits k n = hex_digits k m" and "n < 16 ^ k" and "m < 16 ^ k"
  shows "n = m"
  using assms
proof (induction k arbitrary: n m)
  case 0
  then show ?case by simp
next
  case (Suc k)
  from Suc.prems(1) have hi: "hex_digits k (n div 16) = hex_digits k (m div 16)"
    and lo: "hex_char (n mod 16) = hex_char (m mod 16)"
    by (simp_all add: length_hex_digits)
  from Suc.prems(2) have "n div 16 < 16 ^ k"
    by (simp add: less_mult_imp_div_less mult.commute)
  moreover from Suc.prems(3) have "m div 16 < 16 ^ k"
    by (simp add: less_mult_imp_div_less mult.commute)
  ultimately have "n div 16 = m div 16"
    using Suc.IH hi by blast
  moreover from lo have "n mod 16 = m mod 16"
    by (rule hex_char_inj) simp_all
  ultimately show ?case
    by (metis div_mult_mod_eq)
qed

lemma hex_escape_prefix:
  assumes "hex_digits k (unat c) @ r1 = hex_digits k (unat d) @ r2"
    and "unat c < 16 ^ k" and "unat d < 16 ^ k"
  shows "c = d \<and> r1 = r2"
proof -
  from assms(1) have "hex_digits k (unat c) = hex_digits k (unat d)" and r: "r1 = r2"
    by (simp_all add: length_hex_digits)
  from this(1) assms(2,3) have "unat c = unat d"
    by (rule hex_digits_inj)
  then have "c = d" by (simp add: word_unat_eq_iff)
  with r show ?thesis by simp
qed

text \<open>The three escapes with hexadecimal digits, by how many digits the code needs.\<close>

lemma unat_byte: "c \<le> 0xFF \<Longrightarrow> unat c < 16 ^ 2" for c :: codepoint
  by (simp add: word_le_nat_alt)

lemma unat_short: "c \<le> 0xFFFF \<Longrightarrow> unat c < 16 ^ 4" for c :: codepoint
  by (simp add: word_le_nat_alt)

lemma unat_long: "unat c < 16 ^ 8" for c :: codepoint
  using unsigned_less [of c, where 'a = nat] by simp

lemma unat_control: "c < 0x20 \<Longrightarrow> unat c < 16 ^ 2" for c :: codepoint
  by (simp add: word_less_nat_alt)

lemma is_quote_quote_of: "is_quote (quote_of s)"
  by (simp add: is_quote_def quote_of_def)

lemma escape_char_hd:
  assumes "is_quote q"
  shows "\<exists>h t. escape_char q c = h # t \<and> h \<noteq> q"
  using assms by (auto simp: escape_char_def is_quote_def)

lemma escape_char_forms:
  "(escape_char q c = [0x5C, c] \<and> (c = q \<or> c = 0x5C))
   \<or> (escape_char q c = [0x5C, 0x74] \<and> c = 0x09)
   \<or> (escape_char q c = [0x5C, 0x6E] \<and> c = 0x0A)
   \<or> (escape_char q c = [0x5C, 0x72] \<and> c = 0x0D)
   \<or> (escape_char q c = 0x5C # 0x78 # hex_digits 2 (unat c) \<and> unat c < 16 ^ 2)
   \<or> (escape_char q c = 0x5C # 0x75 # hex_digits 4 (unat c) \<and> unat c < 16 ^ 4)
   \<or> (escape_char q c = 0x5C # 0x55 # hex_digits 8 (unat c) \<and> unat c < 16 ^ 8)
   \<or> (escape_char q c = [c] \<and> c \<noteq> q \<and> c \<noteq> 0x5C)"
proof -
  have x: "unat c < 16 ^ 2" if "c < 0x20 \<or> c = 0x7F \<or> c \<le> 0xFF"
    using that unat_control [of c] unat_byte [of c] by auto
  have l: "unat c < 16 ^ 8" by (rule unat_long)
  consider (a) "c = q \<or> c = 0x5C"
    | (b) "\<not> (c = q \<or> c = 0x5C)" "c = 0x09"
    | (d) "\<not> (c = q \<or> c = 0x5C)" "c \<noteq> 0x09" "c = 0x0A"
    | (e) "\<not> (c = q \<or> c = 0x5C)" "c \<noteq> 0x09" "c \<noteq> 0x0A" "c = 0x0D"
    | (f) "\<not> (c = q \<or> c = 0x5C)" "c \<noteq> 0x09" "c \<noteq> 0x0A" "c \<noteq> 0x0D" "c < 0x20 \<or> c = 0x7F"
    | (g) "\<not> (c = q \<or> c = 0x5C)" "c \<noteq> 0x09" "c \<noteq> 0x0A" "c \<noteq> 0x0D" "\<not> (c < 0x20 \<or> c = 0x7F)"
          "c < 0x7F"
    | (h) "\<not> (c = q \<or> c = 0x5C)" "c \<noteq> 0x09" "c \<noteq> 0x0A" "c \<noteq> 0x0D" "\<not> (c < 0x20 \<or> c = 0x7F)"
          "\<not> c < 0x7F" "\<not> printable c" "c \<le> 0xFF"
    | (i) "\<not> (c = q \<or> c = 0x5C)" "c \<noteq> 0x09" "c \<noteq> 0x0A" "c \<noteq> 0x0D" "\<not> (c < 0x20 \<or> c = 0x7F)"
          "\<not> c < 0x7F" "\<not> printable c" "\<not> c \<le> 0xFF" "c \<le> 0xFFFF"
    | (j) "\<not> (c = q \<or> c = 0x5C)" "c \<noteq> 0x09" "c \<noteq> 0x0A" "c \<noteq> 0x0D" "\<not> (c < 0x20 \<or> c = 0x7F)"
          "\<not> c < 0x7F" "\<not> printable c" "\<not> c \<le> 0xFF" "\<not> c \<le> 0xFFFF"
    | (k) "\<not> (c = q \<or> c = 0x5C)" "c \<noteq> 0x09" "c \<noteq> 0x0A" "c \<noteq> 0x0D" "\<not> (c < 0x20 \<or> c = 0x7F)"
          "\<not> c < 0x7F" "printable c"
    by blast
  then show ?thesis
  proof cases
    case a then show ?thesis by (simp add: escape_char_def)
  next
    case b then show ?thesis by (simp add: escape_char_def)
  next
    case d then show ?thesis by (simp add: escape_char_def)
  next
    case e then show ?thesis by (simp add: escape_char_def)
  next
    case f
    from f(5) have "unat c < 16 ^ 2" using x by blast
    with f show ?thesis by (simp add: escape_char_def)
  next
    case g then show ?thesis by (simp add: escape_char_def)
  next
    case h
    from h(8) have "unat c < 16 ^ 2" using x by blast
    with h show ?thesis by (simp add: escape_char_def)
  next
    case i
    from i(9) have "unat c < 16 ^ 4" by (rule unat_short)
    with i show ?thesis by (simp add: escape_char_def)
  next
    case j
    with l show ?thesis by (simp add: escape_char_def)
  next
    case k then show ?thesis by (simp add: escape_char_def)
  qed
qed

lemma escape_char_prefix:
  assumes "escape_char q c @ r1 = escape_char q d @ r2" and "is_quote q"
  shows "c = d \<and> r1 = r2"
proof -
  have hex: "c = d \<and> r1 = r2"
    if "hex_digits k (unat c) @ r1 = hex_digits k (unat d) @ r2"
      and "unat c < 16 ^ k" and "unat d < 16 ^ k" for k
    using that by (rule hex_escape_prefix)
  from assms(2) have q: "q \<noteq> 0x5C" "q \<noteq> 0x74" "q \<noteq> 0x6E" "q \<noteq> 0x72" "q \<noteq> 0x78"
    "q \<noteq> 0x75" "q \<noteq> 0x55"
    by (auto simp: is_quote_def)
  from escape_char_forms [of q c] escape_char_forms [of q d] assms(1) show ?thesis
    apply (elim disjE conjE)
    apply (simp_all add: q)
    apply (auto dest: hex [of 2] hex [of 4] hex [of 8] simp: q)
    done
qed

lemma escaped_prefix:
  assumes "concat (map (escape_char q) s1) @ q # r1 = concat (map (escape_char q) s2) @ q # r2"
    and "is_quote q"
  shows "s1 = s2 \<and> r1 = r2"
  using assms(1)
proof (induction s1 arbitrary: s2)
  case Nil
  show ?case
  proof (cases s2)
    case Nil
    with Nil.prems show ?thesis by simp
  next
    case (Cons d s2')
    from escape_char_hd [OF assms(2)] obtain h t where "escape_char q d = h # t" "h \<noteq> q"
      by blast
    with Nil.prems Cons show ?thesis by simp
  qed
next
  case (Cons c s1')
  show ?case
  proof (cases s2)
    case Nil
    from escape_char_hd [OF assms(2)] obtain h t where "escape_char q c = h # t" "h \<noteq> q"
      by blast
    with Cons.prems Nil show ?thesis by simp
  next
    case (Cons d s2')
    with Cons.prems have "escape_char q c @ (concat (map (escape_char q) s1') @ q # r1)
        = escape_char q d @ (concat (map (escape_char q) s2') @ q # r2)"
      by simp
    from escape_char_prefix [OF this assms(2)]
    have "c = d" and "concat (map (escape_char q) s1') @ q # r1
        = concat (map (escape_char q) s2') @ q # r2"
      by simp_all
    with Cons.IH Cons show ?thesis by simp
  qed
qed

lemma repr_str_prefix:
  assumes "repr_str s1 @ r1 = repr_str s2 @ r2"
  shows "s1 = s2 \<and> r1 = r2"
proof -
  from assms have q: "quote_of s1 = quote_of s2"
    by (simp add: repr_str_def Let_def)
  with assms have "concat (map (escape_char (quote_of s1)) s1) @ quote_of s1 # r1
      = concat (map (escape_char (quote_of s1)) s2) @ quote_of s1 # r2"
    by (simp add: repr_str_def Let_def)
  then show ?thesis
    using is_quote_quote_of by (rule escaped_prefix)
qed

lemma repr_str_hd: "\<exists>t. repr_str s = quote_of s # t"
  by (simp add: repr_str_def Let_def)

lemma repr_int_hd: "\<exists>c t. repr_int i = c # t \<and> (c = 0x2D \<or> is_digit c)"
  using digits_hd [of "nat i"] by (auto simp: repr_int_def)

lemma repr_hd: "\<exists>c t. repr v = c # t \<and> value_start c"
proof (cases v)
  case (PyInt i)
  with repr_int_hd [of i] show ?thesis by (auto simp: value_start_def)
next
  case (PyStr s)
  with repr_str_hd [of s] is_quote_quote_of [of s] show ?thesis by (auto simp: value_start_def)
qed

lemma repr_prefix:
  assumes "repr v @ r1 = repr w @ r2" and "stops r1" and "stops r2"
  shows "v = w \<and> r1 = r2"
proof (cases v; cases w)
  fix i j assume "v = PyInt i" "w = PyInt j"
  with assms(1) have "repr_int i @ r1 = repr_int j @ r2" by simp
  from repr_int_prefix [OF this assms(2,3)] \<open>v = PyInt i\<close> \<open>w = PyInt j\<close>
  show ?thesis by simp
next
  fix s t assume "v = PyStr s" "w = PyStr t"
  with assms(1) have "repr_str s @ r1 = repr_str t @ r2" by simp
  from repr_str_prefix [OF this] \<open>v = PyStr s\<close> \<open>w = PyStr t\<close>
  show ?thesis by simp
next
  fix i t assume v: "v = PyInt i" and w: "w = PyStr t"
  from repr_int_hd [of i] obtain c u where c: "repr_int i = c # u" "c = 0x2D \<or> is_digit c"
    by blast
  from repr_str_hd [of t] obtain u' where "repr_str t = quote_of t # u'"
    by blast
  with c assms(1) v w have "c = quote_of t" by simp
  with c(2) is_quote_quote_of [of t] show ?thesis
    by (auto simp: is_quote_def is_digit_def)
next
  fix s j assume v: "v = PyStr s" and w: "w = PyInt j"
  from repr_int_hd [of j] obtain c u where c: "repr_int j = c # u" "c = 0x2D \<or> is_digit c"
    by blast
  from repr_str_hd [of s] obtain u' where "repr_str s = quote_of s # u'"
    by blast
  with c assms(1) v w have "c = quote_of s" by simp
  with c(2) is_quote_quote_of [of s] show ?thesis
    by (auto simp: is_quote_def is_digit_def)
qed


lemma comma_not_digit: "\<not> is_digit 0x2C"
  by (simp add: is_digit_def)

lemma join_items_rest:
  "join_items (map f (a # xs)) @ T # r
     = f a @ (case xs of [] \<Rightarrow> T # r | _ # _ \<Rightarrow> pystr_of '', '' @ join_items (map f xs) @ T # r)"
  by (cases xs) simp_all

lemma stops_rest:
  assumes "\<not> is_digit T"
  shows "stops (case xs of [] \<Rightarrow> T # r | _ # _ \<Rightarrow> pystr_of '', '' @ u)"
  using assms by (cases xs) (simp_all add: comma_not_digit)

lemma join_items_prefix:
  assumes inj: "\<forall>a b u1 u2. f a @ u1 = f b @ u2 \<longrightarrow> stops u1 \<longrightarrow> stops u2 \<longrightarrow> a = b \<and> u1 = u2"
    and start: "\<forall>a. \<exists>c t. f a = c # t \<and> c \<noteq> T"
    and T: "\<not> is_digit T" "T \<noteq> 0x2C"
    and eq: "join_items (map f xs) @ T # r1 = join_items (map f ys) @ T # r2"
  shows "xs = ys \<and> r1 = r2"
  using eq
proof (induction xs arbitrary: ys)
  case Nil
  show ?case
  proof (cases ys)
    case Nil
    with Nil.prems show ?thesis by simp
  next
    case (Cons b ys')
    from start obtain c t where c: "f b = c # t" "c \<noteq> T" by blast
    have "join_items (map f ys) @ T # r2
        = f b @ (case ys' of [] \<Rightarrow> T # r2 | _ # _ \<Rightarrow> pystr_of '', '' @ join_items (map f ys') @ T # r2)"
      using Cons by (simp only: join_items_rest)
    with Nil.prems have "T # r1
        = f b @ (case ys' of [] \<Rightarrow> T # r2 | _ # _ \<Rightarrow> pystr_of '', '' @ join_items (map f ys') @ T # r2)"
      by simp
    with c show ?thesis by simp
  qed
next
  case (Cons a xs')
  show ?case
  proof (cases ys)
    case Nil
    from start obtain c t where c: "f a = c # t" "c \<noteq> T" by blast
    have "join_items (map f (a # xs')) @ T # r1
        = f a @ (case xs' of [] \<Rightarrow> T # r1 | _ # _ \<Rightarrow> pystr_of '', '' @ join_items (map f xs') @ T # r1)"
      by (simp only: join_items_rest)
    with Cons.prems Nil have "f a @ (case xs' of [] \<Rightarrow> T # r1 | _ # _ \<Rightarrow> pystr_of '', '' @ join_items (map f xs') @ T # r1)
        = T # r2"
      by simp
    with c show ?thesis by simp
  next
    case (Cons b ys')
    let ?u1 = "case xs' of [] \<Rightarrow> T # r1 | _ # _ \<Rightarrow> pystr_of '', '' @ join_items (map f xs') @ T # r1"
    let ?u2 = "case ys' of [] \<Rightarrow> T # r2 | _ # _ \<Rightarrow> pystr_of '', '' @ join_items (map f ys') @ T # r2"
    from Cons.prems Cons have "f a @ ?u1 = f b @ ?u2"
      by (simp only: join_items_rest)
    moreover have "stops ?u1" using T(1) by (rule stops_rest)
    moreover have "stops ?u2" using T(1) by (rule stops_rest)
    ultimately have ab: "a = b" and u: "?u1 = ?u2"
      using inj by blast+
    show ?thesis
    proof (cases xs')
      case xn: Nil
      show ?thesis
      proof (cases ys')
        case Nil
        with xn u ab Cons show ?thesis by simp
      next
        case (Cons d ys'')
        with xn u T(2) show ?thesis by simp
      qed
    next
      case xc: (Cons c xs'')
      show ?thesis
      proof (cases ys')
        case Nil
        with xc u T(2) show ?thesis by simp
      next
        case yc: (Cons d ys'')
        with xc u have "join_items (map f xs') @ T # r1 = join_items (map f ys') @ T # r2"
          by simp
        from Cons.IH [OF this] ab Cons show ?thesis by simp
      qed
    qed
  qed
qed

lemma repr_start_not: "\<not> value_start c \<Longrightarrow> \<exists>h t. repr v = h # t \<and> h \<noteq> c"
  using repr_hd [of v] by auto

lemma paren_not_start: "\<not> value_start 0x29"
  by (simp add: value_start_def is_quote_def is_digit_def)

lemma paren_not_digit: "\<not> is_digit 0x29"
  by (simp add: is_digit_def)

lemma brace_not_digit: "\<not> is_digit 0x7D"
  by (simp add: is_digit_def)

lemma str_args_Nil: "str_args [] = pystr_of ''()''"
  by (simp add: str_args_def)

lemma str_args_single: "str_args [a] = pystr_of ''('' @ repr a @ pystr_of '',)''"
  by (simp add: str_args_def)

lemma str_args_more:
  "str_args (a # b # xs) = pystr_of ''('' @ join_items (map repr (a # b # xs)) @ pystr_of '')''"
  by (simp add: str_args_def)

lemma str_args_join:
  "\<forall>a. xs \<noteq> [a] \<Longrightarrow> str_args xs = pystr_of ''('' @ join_items (map repr xs) @ pystr_of '')''"
  by (cases xs rule: remdups_adj.cases) (simp_all add: str_args_def)

lemma str_args_prefix:
  assumes "str_args xs @ r1 = str_args ys @ r2"
  shows "xs = ys \<and> r1 = r2"
proof -
  have inj: "\<forall>a b u1 u2. repr a @ u1 = repr b @ u2 \<longrightarrow> stops u1 \<longrightarrow> stops u2 \<longrightarrow> a = b \<and> u1 = u2"
    using repr_prefix by blast
  have start: "\<forall>a. \<exists>c t. repr a = c # t \<and> c \<noteq> 0x29"
    using repr_start_not [OF paren_not_start] by blast
  have neq: "(0x29 :: codepoint) \<noteq> 0x2C"
    by simp
  have general: "xs = ys \<and> r1 = r2"
    if "join_items (map repr xs) @ 0x29 # r1 = join_items (map repr ys) @ 0x29 # r2"
    using inj start paren_not_digit neq that by (rule join_items_prefix)
  have single_other: False
    if "str_args [a] @ u1 = str_args zs @ u2" and "\<forall>b. zs \<noteq> [b]" for a zs u1 u2
  proof (cases zs)
    case Nil
    from start obtain c t where "repr a = c # t" "c \<noteq> 0x29" by blast
    with that(1) Nil show ?thesis by (simp add: str_args_Nil str_args_single)
  next
    case (Cons b zs')
    with that(2) obtain d zs'' where zs': "zs' = d # zs''" by (cases zs') auto
    have "str_args zs = pystr_of ''('' @ repr b @ pystr_of '', '' @ join_items (map repr zs') @ pystr_of '')''"
      unfolding Cons zs' by (simp add: str_args_more)
    with that(1) have "repr a @ (pystr_of '',)'' @ u1)
        = repr b @ (pystr_of '', '' @ join_items (map repr zs') @ pystr_of '')'' @ u2)"
      by (simp add: str_args_single)
    from repr_prefix [OF this] show ?thesis by (simp add: comma_not_digit)
  qed
  show ?thesis
  proof (cases "\<exists>a. xs = [a]")
    case True
    then obtain a where xs: "xs = [a]" by blast
    show ?thesis
    proof (cases "\<exists>b. ys = [b]")
      case True
      then obtain b where ys: "ys = [b]" by blast
      from assms xs ys have "repr a @ (pystr_of '',)'' @ r1) = repr b @ (pystr_of '',)'' @ r2)"
        by (simp add: str_args_single)
      from repr_prefix [OF this] xs ys show ?thesis by (simp add: comma_not_digit)
    next
      case False
      with single_other [of a r1 ys r2] assms xs show ?thesis by simp
    qed
  next
    case False
    show ?thesis
    proof (cases "\<exists>b. ys = [b]")
      case True
      then obtain b where ys: "ys = [b]" by blast
      from assms ys have "str_args [b] @ r2 = str_args xs @ r1" by simp
      with single_other [of b r2 xs r1] False show ?thesis by simp
    next
      case ys: False
      from False have "str_args xs = pystr_of ''('' @ join_items (map repr xs) @ pystr_of '')''"
        by (intro str_args_join) simp
      moreover from ys have "str_args ys = pystr_of ''('' @ join_items (map repr ys) @ pystr_of '')''"
        by (intro str_args_join) simp
      ultimately have "join_items (map repr xs) @ 0x29 # r1
          = join_items (map repr ys) @ 0x29 # r2"
        using assms by simp
      then show ?thesis by (rule general)
    qed
  qed
qed


lemma repr_item_prefix:
  assumes "repr_item kv @ u1 = repr_item kw @ u2" and "stops u1" and "stops u2"
  shows "kv = kw \<and> u1 = u2"
proof -
  from assms(1) have "repr_str (fst kv) @ (pystr_of '': '' @ repr (snd kv) @ u1)
      = repr_str (fst kw) @ (pystr_of '': '' @ repr (snd kw) @ u2)"
    by (simp add: repr_item_def)
  from repr_str_prefix [OF this]
  have k: "fst kv = fst kw" and "repr (snd kv) @ u1 = repr (snd kw) @ u2"
    by simp_all
  from repr_prefix [OF this(2) assms(2,3)] k show ?thesis
    by (simp add: prod_eq_iff)
qed

lemma repr_item_hd: "\<exists>c t. repr_item kv = c # t \<and> c \<noteq> 0x7D"
proof -
  from repr_str_hd [of "fst kv"] obtain t where "repr_str (fst kv) = quote_of (fst kv) # t"
    by blast
  moreover have "quote_of (fst kv) \<noteq> 0x7D"
    by (simp add: quote_of_def)
  ultimately show ?thesis by (simp add: repr_item_def)
qed

lemma str_kwargs_prefix:
  assumes "str_kwargs xs @ r1 = str_kwargs ys @ r2"
  shows "xs = ys \<and> r1 = r2"
proof -
  have inj: "\<forall>a b u1 u2. repr_item a @ u1 = repr_item b @ u2 \<longrightarrow> stops u1 \<longrightarrow> stops u2
      \<longrightarrow> a = b \<and> u1 = u2"
    using repr_item_prefix by blast
  have start: "\<forall>a. \<exists>c t. repr_item a = c # t \<and> c \<noteq> 0x7D"
    using repr_item_hd by blast
  have neq: "(0x7D :: codepoint) \<noteq> 0x2C"
    by simp
  from assms have "join_items (map repr_item xs) @ 0x7D # r1
      = join_items (map repr_item ys) @ 0x7D # r2"
    by (simp add: str_kwargs_def)
  with inj start brace_not_digit neq show ?thesis
    by (rule join_items_prefix)
qed

lemma name_prefix:
  assumes "xs @ c # r1 = ys @ c # r2" and "c \<notin> set xs" and "c \<notin> set ys"
  shows "xs = ys \<and> r1 = r2"
proof -
  have "takeWhile (\<lambda>x. x \<noteq> c) (xs @ c # r1) = xs"
    using assms(2) by (auto simp: takeWhile_tail)
  moreover have "takeWhile (\<lambda>x. x \<noteq> c) (ys @ c # r2) = ys"
    using assms(3) by (auto simp: takeWhile_tail)
  ultimately have "xs = ys" using assms(1) by simp
  with assms(1) show ?thesis by simp
qed

lemma cache_key_inj:
  assumes "cache_key f args kwargs = cache_key g args' kwargs'"
    and "0x3A \<notin> set (func_name f)" and "0x3A \<notin> set (func_name g)"
  shows "func_name f = func_name g \<and> args = args' \<and> kwargs = kwargs'"
proof -
  from assms(1) have "func_name f @ 0x3A # (str_args args @ pystr_of '':'' @ str_kwargs kwargs)
      = func_name g @ 0x3A # (str_args args' @ pystr_of '':'' @ str_kwargs kwargs')"
    by (simp add: cache_key_def)
  from name_prefix [OF this assms(2,3)]
  have n: "func_name f = func_name g"
    and "str_args args @ (pystr_of '':'' @ str_kwargs kwargs) = str_args args' @ (pystr_of '':'' @ str_kwargs kwargs')"
    by simp_all
  from str_args_prefix [OF this(2)]
  have a: "args = args'" and "str_kwargs kwargs @ [] = str_kwargs kwargs' @ []"
    by simp_all
  from str_kwargs_prefix [OF this(2)] n a show ?thesis by simp
qed

lemma wrapper_other_key:
  assumes "k \<noteq> cache_key func args kwargs"
  shows "cache (snd (wrapper expiry func args kwargs s)) k = cache s k"
  using assms
  by (auto simp: wrapper_def call_original_def Let_def
           split: option.splits prod.splits sum.splits)

subsection \<open>The key of a call\<close>

text \<open>
  C2, as the code has it. The key is a function of the name of the wrapped function, the
  tuple of positional arguments and the dictionary of keyword arguments in its order: two
  calls that agree on the three have the same key, whatever the functions do. It is not a
  function of the values the parameters receive, as the example after the next shows.
\<close>

theorem key_deterministic:
  assumes "func_name f = func_name g" and "args = args'" and "kwargs = kwargs'"
  shows "cache_key f args kwargs = cache_key g args' kwargs'"
  using assms by (simp add: cache_key_def)

text \<open>
  \<open>counting_teams\<close> and \<open>failing_teams\<close> have the same name; called with the same team
  identifier they have the same key.
\<close>

theorem key_deterministic_witness:
  "func_name counting_teams = func_name failing_teams
   \<and> cache_key counting_teams [PyStr (pystr_of ''T1'')] [] = cache_key failing_teams [PyStr (pystr_of ''T1'')] []"
proof -
  have n: "func_name counting_teams = func_name failing_teams"
    by (simp add: counting_teams_def failing_teams_def)
  from key_deterministic [OF n refl refl] n show ?thesis
    by simp
qed

text \<open>
  C2 as stated fails. \<open>get_schedule\<close> has the parameters \<open>year\<close> and \<open>season_type\<close>. The
  calls \<open>get_schedule(2023, 'REG')\<close>, \<open>get_schedule(year=2023, season_type='REG')\<close> and
  \<open>get_schedule(season_type='REG', year=2023)\<close> give the parameters the same values, and
  their keys are three different strings.
\<close>

theorem key_call_form_counterexample:
  "bind_args [pystr_of ''year'', pystr_of ''season_type''] [PyInt 2023, PyStr (pystr_of ''REG'')] []
     = bind_args [pystr_of ''year'', pystr_of ''season_type''] [] [(pystr_of ''year'', PyInt 2023), (pystr_of ''season_type'', PyStr (pystr_of ''REG''))]
   \<and> bind_args [pystr_of ''year'', pystr_of ''season_type''] [PyInt 2023, PyStr (pystr_of ''REG'')] []
     = bind_args [pystr_of ''year'', pystr_of ''season_type''] [] [(pystr_of ''season_type'', PyStr (pystr_of ''REG'')), (pystr_of ''year'', PyInt 2023)]
   \<and> cache_key get_schedule [PyInt 2023, PyStr (pystr_of ''REG'')] []
     = pystr_of (''get_schedule:(2023, '' @ [CHR 0x27] @ ''REG'' @ [CHR 0x27] @ ''):{}'')
   \<and> cache_key get_schedule [] [(pystr_of ''year'', PyInt 2023), (pystr_of ''season_type'', PyStr (pystr_of ''REG''))]
     = pystr_of (''get_schedule:():{'' @ [CHR 0x27] @ ''year'' @ [CHR 0x27] @ '': 2023, ''
         @ [CHR 0x27] @ ''season_type'' @ [CHR 0x27] @ '': '' @ [CHR 0x27] @ ''REG'' @ [CHR 0x27] @ ''}'')
   \<and> cache_key get_schedule [] [(pystr_of ''season_type'', PyStr (pystr_of ''REG'')), (pystr_of ''year'', PyInt 2023)]
     = pystr_of (''get_schedule:():{'' @ [CHR 0x27] @ ''season_type'' @ [CHR 0x27] @ '': ''
         @ [CHR 0x27] @ ''REG'' @ [CHR 0x27] @ '', '' @ [CHR 0x27] @ ''year'' @ [CHR 0x27] @ '': 2023}'')
   \<and> cache_key get_schedule [PyInt 2023, PyStr (pystr_of ''REG'')] []
     \<noteq> cache_key get_schedule [] [(pystr_of ''year'', PyInt 2023), (pystr_of ''season_type'', PyStr (pystr_of ''REG''))]
   \<and> cache_key get_schedule [] [(pystr_of ''year'', PyInt 2023), (pystr_of ''season_type'', PyStr (pystr_of ''REG''))]
     \<noteq> cache_key get_schedule [] [(pystr_of ''season_type'', PyStr (pystr_of ''REG'')), (pystr_of ''year'', PyInt 2023)]"
proof -
  have b1: "bind_args [pystr_of ''year'', pystr_of ''season_type''] [PyInt 2023, PyStr (pystr_of ''REG'')] []
      = bind_args [pystr_of ''year'', pystr_of ''season_type''] [] [(pystr_of ''year'', PyInt 2023), (pystr_of ''season_type'', PyStr (pystr_of ''REG''))]"
    by (simp add: bind_args_def)
  have b2: "bind_args [pystr_of ''year'', pystr_of ''season_type''] [PyInt 2023, PyStr (pystr_of ''REG'')] []
      = bind_args [pystr_of ''year'', pystr_of ''season_type''] [] [(pystr_of ''season_type'', PyStr (pystr_of ''REG'')), (pystr_of ''year'', PyInt 2023)]"
    by (simp add: bind_args_def)
  have k1: "cache_key get_schedule [PyInt 2023, PyStr (pystr_of ''REG'')] []
      = pystr_of (''get_schedule:(2023, '' @ [CHR 0x27] @ ''REG'' @ [CHR 0x27] @ ''):{}'')"
    by code_simp
  have k2: "cache_key get_schedule [] [(pystr_of ''year'', PyInt 2023), (pystr_of ''season_type'', PyStr (pystr_of ''REG''))]
      = pystr_of (''get_schedule:():{'' @ [CHR 0x27] @ ''year'' @ [CHR 0x27] @ '': 2023, ''
         @ [CHR 0x27] @ ''season_type'' @ [CHR 0x27] @ '': '' @ [CHR 0x27] @ ''REG'' @ [CHR 0x27] @ ''}'')"
    by code_simp
  have k3: "cache_key get_schedule [] [(pystr_of ''season_type'', PyStr (pystr_of ''REG'')), (pystr_of ''year'', PyInt 2023)]
      = pystr_of (''get_schedule:():{'' @ [CHR 0x27] @ ''season_type'' @ [CHR 0x27] @ '': ''
         @ [CHR 0x27] @ ''REG'' @ [CHR 0x27] @ '', '' @ [CHR 0x27] @ ''year'' @ [CHR 0x27] @ '': 2023}'')"
    by code_simp
  have n: "0x3A \<notin> set (func_name get_schedule)"
    by (simp add: get_schedule_def)
  have d1: "cache_key get_schedule [PyInt 2023, PyStr (pystr_of ''REG'')] []
      \<noteq> cache_key get_schedule [] [(pystr_of ''year'', PyInt 2023), (pystr_of ''season_type'', PyStr (pystr_of ''REG''))]"
  proof
    assume "cache_key get_schedule [PyInt 2023, PyStr (pystr_of ''REG'')] []
      = cache_key get_schedule [] [(pystr_of ''year'', PyInt 2023), (pystr_of ''season_type'', PyStr (pystr_of ''REG''))]"
    from cache_key_inj [OF this n n] show False by simp
  qed
  have d2: "cache_key get_schedule [] [(pystr_of ''year'', PyInt 2023), (pystr_of ''season_type'', PyStr (pystr_of ''REG''))]
      \<noteq> cache_key get_schedule [] [(pystr_of ''season_type'', PyStr (pystr_of ''REG'')), (pystr_of ''year'', PyInt 2023)]"
  proof
    assume "cache_key get_schedule [] [(pystr_of ''year'', PyInt 2023), (pystr_of ''season_type'', PyStr (pystr_of ''REG''))]
      = cache_key get_schedule [] [(pystr_of ''season_type'', PyStr (pystr_of ''REG'')), (pystr_of ''year'', PyInt 2023)]"
    from cache_key_inj [OF this n n] show False by simp
  qed
  show ?thesis
    by (rule conjI b1 b2 k1 k2 k3 d1 d2)+
qed

text \<open>
  C6. An operation is identified by its name, and the name of a Python function has no
  colon. For two calls of functions so named, with the integers and strings the endpoints
  take as arguments: when the operations differ (their names differ), or the tuples of
  positional arguments differ, or the dictionaries of keyword arguments differ, the two
  keys differ, and serving one of the calls leaves the entry of the other as it was.
\<close>

theorem key_discriminates:
  assumes "0x3A \<notin> set (func_name f)" and "0x3A \<notin> set (func_name g)"
    and "func_name f \<noteq> func_name g \<or> args \<noteq> args' \<or> kwargs \<noteq> kwargs'"
  shows "cache_key f args kwargs \<noteq> cache_key g args' kwargs'
       \<and> cache (snd (wrapper expiry f args kwargs s)) (cache_key g args' kwargs')
           = cache s (cache_key g args' kwargs')"
proof -
  have ne: "cache_key f args kwargs \<noteq> cache_key g args' kwargs'"
  proof
    assume "cache_key f args kwargs = cache_key g args' kwargs'"
    from cache_key_inj [OF this assms(1,2)] assms(3) show False by simp
  qed
  then have "cache_key g args' kwargs' \<noteq> cache_key f args kwargs" by simp
  then have "cache (snd (wrapper expiry f args kwargs s)) (cache_key g args' kwargs')
      = cache s (cache_key g args' kwargs')"
    by (rule wrapper_other_key)
  with ne show ?thesis by simp
qed

text \<open>
  The schedules of 2023 and of 2024 have different keys, and a call for 2023 leaves an
  entry for 2024 as it was. The profiles of the teams whose identifiers are the single
  code points 256 and 257 have different keys. The schedule of 2023 and the profile of
  team \<open>2023\<close> have different keys.
\<close>

theorem key_discriminates_witness:
  "cache_key get_schedule [PyInt 2023, PyStr (pystr_of ''REG'')] []
     \<noteq> cache_key get_schedule [PyInt 2024, PyStr (pystr_of ''REG'')] []
   \<and> cache (snd (wrapper 10 get_schedule [PyInt 2023, PyStr (pystr_of ''REG'')] []
        \<lparr>cache = [cache_key get_schedule [PyInt 2024, PyStr (pystr_of ''REG'')] [] \<mapsto> (0, 7)],
          clock = 5, provider = 1\<rparr>))
       (cache_key get_schedule [PyInt 2024, PyStr (pystr_of ''REG'')] [])
     = Some (0, 7)
   \<and> cache_key get_team_profile [] [(pystr_of ''team_id'', PyStr [0x100])]
     \<noteq> cache_key get_team_profile [] [(pystr_of ''team_id'', PyStr [0x101])]
   \<and> cache_key get_schedule [PyInt 2023] [] \<noteq> cache_key get_team_profile [PyInt 2023] []"
proof -
  let ?s = "\<lparr>cache = [cache_key get_schedule [PyInt 2024, PyStr (pystr_of ''REG'')] [] \<mapsto> (0, 7)],
    clock = 5, provider = 1\<rparr> :: (int, int) state"
  have n: "0x3A \<notin> set (func_name get_schedule)"
    by (simp add: get_schedule_def)
  have m: "0x3A \<notin> set (func_name get_team_profile)"
    by (simp add: get_team_profile_def)
  have d: "func_name get_schedule \<noteq> func_name get_schedule
      \<or> [PyInt 2023, PyStr (pystr_of ''REG'')] \<noteq> [PyInt 2024, PyStr (pystr_of ''REG'')]
      \<or> ([] :: pykwargs) \<noteq> []"
    by simp
  have e: "func_name get_team_profile \<noteq> func_name get_team_profile
      \<or> ([] :: pyargs) \<noteq> []
      \<or> [(pystr_of ''team_id'', PyStr [0x100])] \<noteq> [(pystr_of ''team_id'', PyStr [0x101])]"
    by simp
  have f: "func_name get_schedule \<noteq> func_name get_team_profile
      \<or> [PyInt 2023] \<noteq> [PyInt 2023]
      \<or> ([] :: pykwargs) \<noteq> []"
    by (simp add: get_schedule_def get_team_profile_def)
  from key_discriminates [OF n n d, of 10 ?s]
  have "cache_key get_schedule [PyInt 2023, PyStr (pystr_of ''REG'')] []
      \<noteq> cache_key get_schedule [PyInt 2024, PyStr (pystr_of ''REG'')] []"
    and "cache (snd (wrapper 10 get_schedule [PyInt 2023, PyStr (pystr_of ''REG'')] [] ?s))
        (cache_key get_schedule [PyInt 2024, PyStr (pystr_of ''REG'')] [])
      = Some (0, 7)"
    by simp_all
  moreover from key_discriminates [OF m m e, of 10 ?s]
  have "cache_key get_team_profile [] [(pystr_of ''team_id'', PyStr [0x100])]
      \<noteq> cache_key get_team_profile [] [(pystr_of ''team_id'', PyStr [0x101])]"
    by simp
  moreover from key_discriminates [OF n m f, of 10 ?s]
  have "cache_key get_schedule [PyInt 2023] [] \<noteq> cache_key get_team_profile [PyInt 2023] []"
    by simp
  ultimately show ?thesis by blast
qed

end
